theory Spec2Isabelle
  imports Main "HOL-Library.Word"
begin

section \<open>The ART fault manager: \<open>runtime/fault_handler.cc\<close>\<close>

text \<open>
  The model is sequential: one call runs at a time, so the writer mutex
  \<open>generated_code_ranges_lock_\<close> and the memory orders of the atomic loads and stores
  have no effect on it, and neither has \<open>VLOG\<close>. A \<open>CHECK\<close> that fails or a
  \<open>LOG(FATAL)\<close> aborts the process; a \<open>DCHECK\<close> does so only in a build where
  \<open>kEnableDChecks\<close> is set. Dereferencing a pointer to a node that is not allocated
  is undefined behaviour in C++ and is an error of its own here.
\<close>

subsection \<open>Data\<close>

datatype error = CheckFailed | DCheckFailed | LogFatal | InvalidPointer

text \<open>Addresses of \<open>GeneratedCodeRange\<close> nodes; \<open>None\<close> is \<open>nullptr\<close>.\<close>

type_synonym addr = nat

text \<open>A \<open>FaultHandler*\<close>, compared by identity only.\<close>

type_synonym handler = nat

text \<open>
  \<open>struct FaultManager::GeneratedCodeRange { next; start; size; }\<close>. The fields
  \<open>start\<close> (read through \<open>reinterpret_cast<uintptr_t>\<close>) and \<open>size\<close> (a
  \<open>size_t\<close>) have the type \<open>'uintptr\<close>, which every operation below takes to be
  \<open>'w word\<close>, the unsigned integers of the target's pointer width. The field names
  carry the prefix \<open>range_\<close>: \<open>next\<close> is a keyword of Isar and \<open>size\<close> a constant
  of HOL.
\<close>

record 'uintptr GeneratedCodeRange =
  range_next :: "addr option"
  range_start :: "'uintptr"
  range_size :: "'uintptr"

text \<open>
  The members of \<open>FaultManager\<close>, and the store \<open>heap\<close> in which the nodes made by
  \<open>new GeneratedCodeRange\<close> live: \<open>heap m p = None\<close> when nothing is allocated at
  \<open>p\<close>.
\<close>

record 'uintptr FaultManager =
  heap :: "addr \<Rightarrow> 'uintptr GeneratedCodeRange option"
  generated_code_ranges :: "addr option"
  generated_code_handlers :: "handler list"
  other_handlers :: "handler list"
  initialized :: bool

text \<open>
  Modelled from the spec: the enum \<open>ThreadState\<close> is declared outside the given sources.
  \<open>IsInGeneratedCode\<close> only compares a state with \<open>kRunnable\<close>; every other
  enumerator is \<open>kOtherState n\<close>.
\<close>

datatype ThreadState = kRunnable | kOtherState nat

text \<open>
  What the fault manager reads of a \<open>Thread\<close>: \<open>thread->GetState()\<close> and
  \<open>Locks::mutator_lock_->IsSharedHeld(thread)\<close>.
\<close>

record Thread =
  GetState :: ThreadState
  IsSharedHeld :: bool

text \<open>
  What it reads of the \<open>Runtime\<close>: \<open>IsStarted()\<close> and whether \<open>GetThreadList()\<close>
  is non-null.
\<close>

record Runtime =
  IsStarted :: bool
  HasThreadList :: bool

text \<open>
  The process around a call: the build flag behind \<open>DCHECK\<close>, \<open>Thread::Current()\<close>
  and \<open>Runtime::Current()\<close> (\<open>None\<close> is \<open>nullptr\<close>).
\<close>

record Env =
  kEnableDChecks :: bool
  Thread_Current :: "Thread option"
  Runtime_Current :: "Runtime option"

text \<open>
  A delivered signal \<open>(sig, info, context)\<close>, as far as the manager looks at it:
  the result of the platform accessor \<open>GetFaultPc(siginfo, context)\<close>, and for every
  handler what its virtual \<open>Action(sig, info, context)\<close> returns for this signal.
\<close>

record 'uintptr Signal =
  GetFaultPc :: "'uintptr"
  Action :: "handler \<Rightarrow> bool"

text \<open>What a call of \<open>HandleFault\<close> does that can be seen from outside, in order.\<close>

datatype event = ActionCalled handler | art_sigsegv_fault

subsection \<open>Lifecycle\<close>

text \<open>
  \<open>FaultManager::Init\<close>. The signal-chain registration happens outside the manager's
  members; \<open>membarrier_result\<close> is what
  \<open>art::membarrier(MembarrierCommand::kRegisterPrivateExpedited)\<close> returns, and a
  nonzero result is only logged.
\<close>

definition Init :: "int \<Rightarrow> 'w::len word FaultManager \<Rightarrow> error + 'w word FaultManager" where
  "Init membarrier_result m =
     (if initialized m then Inl CheckFailed
      else Inr (m\<lparr>initialized := True\<rparr>))"

text \<open>\<open>FaultManager::Release\<close>.\<close>

definition Release :: "'w::len word FaultManager \<Rightarrow> 'w word FaultManager" where
  "Release m = (if initialized m then m\<lparr>initialized := False\<rparr> else m)"

text \<open>
  The loop of \<open>Shutdown\<close> that deletes the captured chain of ranges: read the
  \<open>next\<close> link, delete the node, go on. (The source's local \<open>range\<close> is \<open>rng\<close>
  throughout, \<open>range\<close> being a constant of HOL.)
\<close>

partial_function (option) delete_ranges ::
  "addr option \<Rightarrow> 'w::len word FaultManager \<Rightarrow> (error + 'w word FaultManager) option" where
  "delete_ranges rng m =
     (case rng of
        None \<Rightarrow> Some (Inr m)
      | Some p \<Rightarrow>
          (case heap m p of
             None \<Rightarrow> Some (Inl InvalidPointer)
           | Some r \<Rightarrow> delete_ranges (range_next r) (m\<lparr>heap := (heap m)(p := None)\<rparr>)))"

text \<open>
  Modelled from the spec: \<open>STLDeleteElements\<close> is defined outside the given sources.
  \<open>Shutdown\<close> "destroys every registered handler": the handlers are deleted, and the
  vector that held them is left empty.
\<close>

definition STLDeleteElements :: "handler list \<Rightarrow> handler list" where
  "STLDeleteElements container = []"

text \<open>\<open>FaultManager::Shutdown\<close>.\<close>

definition Shutdown :: "'w::len word FaultManager \<Rightarrow> (error + 'w word FaultManager) option" where
  "Shutdown m =
     (if initialized m then
        (let m1 = Release m;
             m2 = m1\<lparr>generated_code_handlers := STLDeleteElements (generated_code_handlers m1)\<rparr>;
             m3 = m2\<lparr>other_handlers := STLDeleteElements (other_handlers m2)\<rparr>;
             rng = generated_code_ranges m3;
             m4 = m3\<lparr>generated_code_ranges := None\<rparr>
         in delete_ranges rng m4)
      else Some (Inr m))"

subsection \<open>Handler lists\<close>

text \<open>\<open>FaultManager::AddHandler\<close>.\<close>

definition AddHandler ::
  "Env \<Rightarrow> handler \<Rightarrow> bool \<Rightarrow> 'w::len word FaultManager \<Rightarrow> error + 'w word FaultManager" where
  "AddHandler env h generated_code m =
     (if kEnableDChecks env \<and> \<not> initialized m then Inl DCheckFailed
      else if generated_code
        then Inr (m\<lparr>generated_code_handlers := generated_code_handlers m @ [h]\<rparr>)
        else Inr (m\<lparr>other_handlers := other_handlers m @ [h]\<rparr>))"

text \<open>
  \<open>FaultManager::RemoveHandler\<close>: \<open>std::find\<close> and \<open>erase\<close> take the first
  occurrence out.
\<close>

definition RemoveHandler :: "handler \<Rightarrow> 'w::len word FaultManager \<Rightarrow> error + 'w word FaultManager" where
  "RemoveHandler h m =
     (if h \<in> set (generated_code_handlers m)
        then Inr (m\<lparr>generated_code_handlers := remove1 h (generated_code_handlers m)\<rparr>)
      else if h \<in> set (other_handlers m)
        then Inr (m\<lparr>other_handlers := remove1 h (other_handlers m)\<rparr>)
      else Inl LogFatal)"

subsection \<open>The registry of generated-code ranges\<close>

text \<open>
  \<open>FaultManager::AddGeneratedCodeRange\<close>. The address \<open>new_range\<close> is the one that
  \<open>new GeneratedCodeRange{nullptr, start, size}\<close> returns; the allocator hands out
  only addresses at which nothing is allocated. The source's parameter \<open>size\<close> is
  \<open>sz\<close>. The closing \<open>membarrier\<close> touches no member.
\<close>

definition AddGeneratedCodeRange ::
  "addr \<Rightarrow> 'w::len word \<Rightarrow> 'w word \<Rightarrow> 'w word FaultManager \<Rightarrow> 'w word FaultManager" where
  "AddGeneratedCodeRange new_range start sz m =
     (let r = \<lparr>range_next = None, range_start = start, range_size = sz\<rparr>;
          m1 = m\<lparr>heap := (heap m)(new_range \<mapsto> r)\<rparr>;
          old_head = generated_code_ranges m1;
          m2 = m1\<lparr>heap := (heap m1)(new_range \<mapsto> r\<lparr>range_next := old_head\<rparr>)\<rparr>
      in m2\<lparr>generated_code_ranges := Some new_range\<rparr>)"

text \<open>
  The \<open>std::atomic<GeneratedCodeRange*>*\<close> that \<open>RemoveGeneratedCodeRange\<close> keeps in
  \<open>before\<close>: \<open>&generated_code_ranges_\<close> or the \<open>&range->next\<close> of a node.
\<close>

datatype link = HeadLink | NextLink addr

text \<open>\<open>before->store(next, ...)\<close>, release or relaxed.\<close>

fun store_link ::
  "link \<Rightarrow> addr option \<Rightarrow> 'w::len word FaultManager \<Rightarrow> error + 'w word FaultManager" where
  "store_link HeadLink v m = Inr (m\<lparr>generated_code_ranges := v\<rparr>)"
| "store_link (NextLink q) v m =
     (case heap m q of
        None \<Rightarrow> Inl InvalidPointer
      | Some r \<Rightarrow> Inr (m\<lparr>heap := (heap m)(q \<mapsto> r\<lparr>range_next := v\<rparr>)\<rparr>))"

text \<open>
  The search loop of \<open>RemoveGeneratedCodeRange\<close>:
  \<open>while (range != nullptr && range->start != start)\<close>, moving \<open>before\<close> to
  \<open>&range->next\<close> and \<open>range\<close> to what is loaded from there.
\<close>

partial_function (option) find_range ::
  "'w::len word \<Rightarrow> link \<Rightarrow> addr option \<Rightarrow> 'w word FaultManager
     \<Rightarrow> (error + link \<times> addr option) option" where
  "find_range start before rng m =
     (case rng of
        None \<Rightarrow> Some (Inr (before, None))
      | Some p \<Rightarrow>
          (case heap m p of
             None \<Rightarrow> Some (Inl InvalidPointer)
           | Some r \<Rightarrow>
               if range_start r \<noteq> start
               then find_range start (NextLink p) (range_next r) m
               else Some (Inr (before, Some p))))"

text \<open>
  The block of \<open>RemoveGeneratedCodeRange\<close> that runs under the lock: the search, and
  when a node is found, the store of its \<open>next\<close> into \<open>before\<close>. It returns the
  local \<open>range\<close> and the manager.
\<close>

definition unlink_range ::
  "'w::len word \<Rightarrow> 'w word FaultManager \<Rightarrow> (error + addr option \<times> 'w word FaultManager) option" where
  "unlink_range start m =
     (case find_range start HeadLink (generated_code_ranges m) m of
        None \<Rightarrow> None
      | Some (Inl e) \<Rightarrow> Some (Inl e)
      | Some (Inr (before, None)) \<Rightarrow> Some (Inr (None, m))
      | Some (Inr (before, Some p)) \<Rightarrow>
          (case heap m p of
             None \<Rightarrow> Some (Inl InvalidPointer)
           | Some r \<Rightarrow>
               (case store_link before (range_next r) m of
                  Inl e \<Rightarrow> Some (Inl e)
                | Inr m' \<Rightarrow> Some (Inr (Some p, m')))))"

text \<open>
  \<open>FaultManager::RemoveGeneratedCodeRange\<close>: the unlinking, the three \<open>CHECK\<close>s and
  the \<open>DCHECK_EQ\<close>, and \<open>delete range\<close>. \<open>RunEmptyCheckpoint\<close> waits for the other
  threads and touches no member.
\<close>

definition RemoveGeneratedCodeRange ::
  "Env \<Rightarrow> 'w::len word \<Rightarrow> 'w word \<Rightarrow> 'w word FaultManager
     \<Rightarrow> (error + 'w word FaultManager) option" where
  "RemoveGeneratedCodeRange env start sz m =
     (case unlink_range start m of
        None \<Rightarrow> None
      | Some (Inl e) \<Rightarrow> Some (Inl e)
      | Some (Inr (None, m1)) \<Rightarrow> Some (Inl CheckFailed)
      | Some (Inr (Some p, m1)) \<Rightarrow>
          (case heap m1 p of
             None \<Rightarrow> Some (Inl InvalidPointer)
           | Some r \<Rightarrow>
               if kEnableDChecks env \<and> range_start r \<noteq> start then Some (Inl DCheckFailed)
               else if range_size r \<noteq> sz then Some (Inl CheckFailed)
               else (case Runtime_Current env of
                       None \<Rightarrow> Some (Inl CheckFailed)
                     | Some runtime \<Rightarrow> Some (Inr (m1\<lparr>heap := (heap m1)(p := None)\<rparr>)))))"

text \<open>
  The loop of \<open>IsInGeneratedCode\<close> over the list, from the loaded head:
  \<open>fault_pc - reinterpret_cast<uintptr_t>(range->start) < range->size\<close> in unsigned
  arithmetic of the pointer width.
\<close>

partial_function (option) walk_ranges ::
  "'w::len word \<Rightarrow> addr option \<Rightarrow> 'w word FaultManager
     \<Rightarrow> (error + bool \<times> 'w word FaultManager) option" where
  "walk_ranges fault_pc rng m =
     (case rng of
        None \<Rightarrow> Some (Inr (False, m))
      | Some p \<Rightarrow>
          (case heap m p of
             None \<Rightarrow> Some (Inl InvalidPointer)
           | Some r \<Rightarrow>
               if fault_pc - range_start r < range_size r
               then Some (Inr (True, m))
               else walk_ranges fault_pc (range_next r) m))"

text \<open>
  \<open>FaultManager::IsInGeneratedCode\<close>, a non-const member function: it returns its
  answer and the manager it leaves behind.
\<close>

definition IsInGeneratedCode ::
  "Env \<Rightarrow> 'w::len word Signal \<Rightarrow> 'w word FaultManager
     \<Rightarrow> (error + bool \<times> 'w word FaultManager) option" where
  "IsInGeneratedCode env sg m =
     (case Thread_Current env of
        None \<Rightarrow> Some (Inr (False, m))
      | Some thread \<Rightarrow>
          if GetState thread \<noteq> kRunnable then Some (Inr (False, m))
          else if \<not> IsSharedHeld thread then Some (Inr (False, m))
          else (let fault_pc = GetFaultPc sg
                in if fault_pc = 0 then Some (Inr (False, m))
                   else walk_ranges fault_pc (generated_code_ranges m) m))"

subsection \<open>Dispatch\<close>

text \<open>
  The loop both dispatchers run over their list:
  \<open>for (handler : handlers) if (handler->Action(sig, info, context)) return true;\<close>.
  It returns the calls made and whether one of them claimed the signal.
\<close>

fun invoke_handlers :: "(handler \<Rightarrow> bool) \<Rightarrow> handler list \<Rightarrow> event list \<times> bool" where
  "invoke_handlers act [] = ([], False)"
| "invoke_handlers act (h # hs) =
     (if act h then ([ActionCalled h], True)
      else (let (evs, claimed) = invoke_handlers act hs in (ActionCalled h # evs, claimed)))"

text \<open>\<open>FaultManager::HandleFaultByOtherHandlers\<close>, with its three \<open>DCHECK\<close>s.\<close>

definition HandleFaultByOtherHandlers ::
  "Env \<Rightarrow> 'w::len word Signal \<Rightarrow> 'w word FaultManager \<Rightarrow> event list \<times> (error + bool)" where
  "HandleFaultByOtherHandlers env sg m =
     (if other_handlers m = [] then ([], Inr False)
      else if kEnableDChecks env \<and> Thread_Current env = None then ([], Inl DCheckFailed)
      else if kEnableDChecks env \<and> Runtime_Current env = None then ([], Inl DCheckFailed)
      else if kEnableDChecks env \<and>
              (case Runtime_Current env of None \<Rightarrow> False | Some runtime \<Rightarrow> \<not> IsStarted runtime)
        then ([], Inl DCheckFailed)
      else (let (evs, claimed) = invoke_handlers (Action sg) (other_handlers m)
            in (evs, Inr claimed)))"

text \<open>
  \<open>FaultManager::HandleFault\<close> (built without \<open>TEST_NESTED_SIGNAL\<close>): the events of
  the call and what it returns.
\<close>

definition HandleFault ::
  "Env \<Rightarrow> 'w::len word Signal \<Rightarrow> 'w word FaultManager \<Rightarrow> (event list \<times> (error + bool)) option" where
  "HandleFault env sg m =
     (case IsInGeneratedCode env sg m of
        None \<Rightarrow> None
      | Some (Inl e) \<Rightarrow> Some ([], Inl e)
      | Some (Inr (in_generated_code, m1)) \<Rightarrow>
          (let (evs1, claimed1) =
                 (if in_generated_code
                  then invoke_handlers (Action sg) (generated_code_handlers m1)
                  else ([], False))
           in if claimed1 then Some (evs1, Inr True)
              else (case HandleFaultByOtherHandlers env sg m1 of
                      (evs2, Inl e) \<Rightarrow> Some (evs1 @ evs2, Inl e)
                    | (evs2, Inr True) \<Rightarrow> Some (evs1 @ evs2, Inr True)
                    | (evs2, Inr False) \<Rightarrow>
                        Some (evs1 @ evs2 @ [art_sigsegv_fault], Inr False))))"

subsection \<open>The list a registry holds\<close>

text \<open>
  \<open>ranges_path h rng ps q\<close>: in the store \<open>h\<close>, following \<open>next\<close> from the pointer
  \<open>rng\<close> goes through the allocated nodes at \<open>ps\<close>, in this order, and arrives at the
  pointer \<open>q\<close>.
\<close>

fun ranges_path ::
  "(addr \<Rightarrow> 'a GeneratedCodeRange option) \<Rightarrow> addr option \<Rightarrow> addr list \<Rightarrow> addr option \<Rightarrow> bool" where
  "ranges_path h rng [] q = (rng = q)"
| "ranges_path h rng (p # ps) q =
     (rng = Some p \<and> (case h p of None \<Rightarrow> False | Some r \<Rightarrow> ranges_path h (range_next r) ps q))"

text \<open>
  \<open>registered m ps\<close>: the list of the manager \<open>m\<close> is made of the nodes at \<open>ps\<close>, from
  the head to the closing \<open>nullptr\<close>. The constructor's empty registry is such a list,
  and adding and removing ranges keep it one (lemmas \<open>registered_Add\<close> and
  \<open>RemoveGeneratedCodeRange_found\<close> below).
\<close>

definition registered :: "'a FaultManager \<Rightarrow> addr list \<Rightarrow> bool" where
  "registered m ps = ranges_path (heap m) (generated_code_ranges m) ps None"

subsection \<open>Concrete states\<close>

text \<open>
  A 64-bit manager after \<open>AddGeneratedCodeRange(0x1000, 0x100)\<close> (node 1) and then
  \<open>AddGeneratedCodeRange(0x2000, 0x100)\<close> (node 2, the head), with three generated-code
  handlers and one other handler.
\<close>

definition two_ranges :: "64 word FaultManager" where
  "two_ranges =
     \<lparr>heap = [1 \<mapsto> \<lparr>range_next = None, range_start = 0x1000, range_size = 0x100\<rparr>,
              2 \<mapsto> \<lparr>range_next = Some 1, range_start = 0x2000, range_size = 0x100\<rparr>],
      generated_code_ranges = Some 2,
      generated_code_handlers = [10, 11, 12],
      other_handlers = [20],
      initialized = True\<rparr>"

text \<open>A debug build, on an attached runnable thread that holds the mutator lock.\<close>

definition runnable_env :: Env where
  "runnable_env =
     \<lparr>kEnableDChecks = True,
      Thread_Current = Some \<lparr>GetState = kRunnable, IsSharedHeld = True\<rparr>,
      Runtime_Current = Some \<lparr>IsStarted = True, HasThreadList = True\<rparr>\<rparr>"

text \<open>The same build, on a thread that is not attached to the runtime.\<close>

definition detached_env :: Env where
  "detached_env = runnable_env\<lparr>Thread_Current := None\<rparr>"

text \<open>A signal with fault PC \<open>pc\<close> that exactly the handlers in \<open>claimers\<close> claim.\<close>

definition fault_at :: "'w::len word \<Rightarrow> handler list \<Rightarrow> 'w word Signal" where
  "fault_at pc claimers = \<lparr>GetFaultPc = pc, Action = (\<lambda>h. h \<in> set claimers)\<rparr>"

text \<open>
  A 64-bit manager after \<open>AddGeneratedCodeRange(0xFFFFFFFFFFFFFFF0, 0x20)\<close>: the
  range runs over the end of the address space.
\<close>

definition wrapping_range :: "64 word FaultManager" where
  "wrapping_range =
     \<lparr>heap = [1 \<mapsto> \<lparr>range_next = None, range_start = 0xFFFFFFFFFFFFFFF0, range_size = 0x20\<rparr>],
      generated_code_ranges = Some 1,
      generated_code_handlers = [],
      other_handlers = [],
      initialized = True\<rparr>"

text \<open>
  A 64-bit manager after adding \<open>(0x1000, 0x100)\<close>, \<open>(0x2000, 0x100)\<close> and
  \<open>(0x3000, 0x100)\<close>, in this order: the list is node 3, node 2, node 1.
\<close>

definition three_ranges :: "64 word FaultManager" where
  "three_ranges =
     \<lparr>heap = [1 \<mapsto> \<lparr>range_next = None, range_start = 0x1000, range_size = 0x100\<rparr>,
              2 \<mapsto> \<lparr>range_next = Some 1, range_start = 0x2000, range_size = 0x100\<rparr>,
              3 \<mapsto> \<lparr>range_next = Some 2, range_start = 0x3000, range_size = 0x100\<rparr>],
      generated_code_ranges = Some 3,
      generated_code_handlers = [],
      other_handlers = [],
      initialized = True\<rparr>"

text \<open>
  \<open>three_ranges\<close> with the \<open>next\<close> of node 3 pointing at node 1: node 2 is out of
  the list and keeps its fields.
\<close>

definition three_ranges_unlinked :: "64 word FaultManager" where
  "three_ranges_unlinked =
     three_ranges\<lparr>heap := (heap three_ranges)
        (3 \<mapsto> \<lparr>range_next = Some 1, range_start = 0x3000, range_size = 0x100\<rparr>)\<rparr>"

text \<open>
  A debug build with a started runtime, on an attached thread that is not Runnable and
  does not hold the mutator lock (a thread running native code).
\<close>

definition native_env :: Env where
  "native_env =
     runnable_env\<lparr>Thread_Current := Some \<lparr>GetState = kOtherState 0, IsSharedHeld = False\<rparr>\<rparr>"

text \<open>What the constructor leaves, and what \<open>Shutdown\<close> makes of \<open>two_ranges\<close>: no range,
  no handler, not initialized.\<close>

definition fresh_manager :: "64 word FaultManager" where
  "fresh_manager =
     \<lparr>heap = Map.empty,
      generated_code_ranges = None,
      generated_code_handlers = [],
      other_handlers = [],
      initialized = False\<rparr>"

text \<open>\<open>two_ranges\<close> with three other handlers.\<close>

definition three_other_handlers :: "64 word FaultManager" where
  "three_other_handlers = two_ranges\<lparr>other_handlers := [20, 21, 22]\<rparr>"

section \<open>Properties\<close>

subsection \<open>Lists in the store\<close>

lemma ranges_path_append:
  "ranges_path h rng (xs @ ys) q = (\<exists>y. ranges_path h rng xs y \<and> ranges_path h y ys q)"
  by (induction xs arbitrary: rng) (auto split: option.splits)

lemma ranges_path_unique:
  "ranges_path h rng xs None \<Longrightarrow> ranges_path h rng ys None \<Longrightarrow> xs = ys"
proof (induction xs arbitrary: rng ys)
  case Nil
  then show ?case by (cases ys) auto
next
  case (Cons x xs)
  then show ?case by (cases ys) (auto split: option.splits)
qed

lemma ranges_path_hd_notin:
  assumes "ranges_path h (Some p) (p # ps) None"
  shows "p \<notin> set ps"
proof
  assume "p \<in> set ps"
  then obtain bs cs where ps: "ps = bs @ p # cs"
    by (auto simp: in_set_conv_decomp)
  from assms obtain r where r: "h p = Some r" and tl: "ranges_path h (range_next r) ps None"
    by (auto split: option.splits)
  from tl ps obtain y where y: "ranges_path h y (p # cs) None"
    by (auto simp: ranges_path_append)
  then have "y = Some p" by simp
  with y r have "ranges_path h (range_next r) cs None" by simp
  with tl have "ps = cs" by (rule ranges_path_unique)
  with ps show False by simp
qed

lemma ranges_path_distinct:
  "ranges_path h rng ps None \<Longrightarrow> distinct ps"
proof (induction ps arbitrary: rng)
  case Nil
  then show ?case by simp
next
  case (Cons p ps)
  then have "rng = Some p" by simp
  with Cons.prems have "ranges_path h (Some p) (p # ps) None" by simp
  then have "p \<notin> set ps" by (rule ranges_path_hd_notin)
  moreover from Cons have "distinct ps" by (auto split: option.splits)
  ultimately show ?case by simp
qed

lemma ranges_path_update_other:
  "q \<notin> set ps \<Longrightarrow> ranges_path (h(q := v)) rng ps y = ranges_path h rng ps y"
  by (induction ps arbitrary: rng) (auto split: option.splits)

subsection \<open>The lookup\<close>

lemma walk_ranges_registered:
  "ranges_path (heap m) rng ps None \<Longrightarrow>
   walk_ranges pc rng m =
     Some (Inr ((\<exists>p\<in>set ps. \<exists>r. heap m p = Some r \<and> pc - range_start r < range_size r), m))"
proof (induction ps arbitrary: rng)
  case Nil
  then show ?case by (simp add: walk_ranges.simps)
next
  case (Cons p ps)
  then obtain r where "rng = Some p" "heap m p = Some r" "ranges_path (heap m) (range_next r) ps None"
    by (auto split: option.splits)
  with Cons.IH [of "range_next r"] show ?case
    by (subst walk_ranges.simps) auto
qed

lemma walk_ranges_frame:
  assumes "walk_ranges pc rng m = Some y"
  shows "\<forall>b m'. y = Inr (b, m') \<longrightarrow> m' = m"
proof (rule walk_ranges.raw_induct [OF _ assms])
  fix walk :: "'a word \<Rightarrow> addr option \<Rightarrow> 'a word FaultManager
                 \<Rightarrow> (error + bool \<times> 'a word FaultManager) option"
  fix fault_pc rng m y
  assume IH: "\<And>pc' rng' m' y'. walk pc' rng' m' = Some y' \<Longrightarrow>
                \<forall>b m''. y' = Inr (b, m'') \<longrightarrow> m'' = m'"
  assume step: "(case rng of
        None \<Rightarrow> Some (Inr (False, m))
      | Some p \<Rightarrow>
          (case heap m p of
             None \<Rightarrow> Some (Inl InvalidPointer)
           | Some r \<Rightarrow>
               if fault_pc - range_start r < range_size r
               then Some (Inr (True, m))
               else walk fault_pc (range_next r) m)) = Some y"
  show "\<forall>b m'. y = Inr (b, m') \<longrightarrow> m' = m"
  proof (cases rng)
    case None
    with step show ?thesis by auto
  next
    case (Some p)
    show ?thesis
    proof (cases "heap m p")
      case None
      with Some step show ?thesis by auto
    next
      case (Some r)
      with \<open>rng = Some p\<close> step IH [of fault_pc "range_next r" m y] show ?thesis
        by (auto split: if_splits)
    qed
  qed
qed

lemma range_test_no_wrap:
  fixes pc s n :: "'w::len word"
  assumes "unat s + unat n \<le> 2 ^ LENGTH('w)"
  shows "(pc - s < n) = (unat s \<le> unat pc \<and> unat pc < unat s + unat n)"
  using assms
  by (auto simp: word_less_nat_alt unat_sub_if' word_le_nat_alt split: if_splits)

lemma IsInGeneratedCode_registered:
  assumes "registered m ps"
    and "Thread_Current env = Some thread" and "GetState thread = kRunnable"
    and "IsSharedHeld thread" and "GetFaultPc sg \<noteq> 0"
  shows "IsInGeneratedCode env sg m =
     Some (Inr ((\<exists>p\<in>set ps. \<exists>r. heap m p = Some r \<and>
                  GetFaultPc sg - range_start r < range_size r), m))"
  using assms
  by (simp add: IsInGeneratedCode_def registered_def walk_ranges_registered)

lemma IsInGeneratedCode_guard_fails:
  assumes "Thread_Current env = None \<or>
     (\<exists>thread. Thread_Current env = Some thread \<and>
        (GetState thread \<noteq> kRunnable \<or> \<not> IsSharedHeld thread)) \<or>
     GetFaultPc sg = 0"
  shows "IsInGeneratedCode env sg m = Some (Inr (False, m))"
  using assms
  by (auto simp: IsInGeneratedCode_def split: option.splits)

lemma IsInGeneratedCode_returns:
  assumes "registered m ps"
  shows "\<exists>b. IsInGeneratedCode env sg m = Some (Inr (b, m))"
  using assms
  by (auto simp: IsInGeneratedCode_def registered_def walk_ranges_registered Let_def
           split: option.splits)

lemma IsInGeneratedCode_frame:
  assumes "IsInGeneratedCode env sg m = Some (Inr (b, m'))"
  shows "m' = m"
  using assms walk_ranges_frame [of "GetFaultPc sg" "generated_code_ranges m" m "Inr (b, m')"]
  by (auto simp: IsInGeneratedCode_def Let_def split: option.splits if_splits)

subsection \<open>Removing a range\<close>

lemma find_range_found:
  assumes "ranges_path (heap m) rng pre (Some a)"
    and "heap m a = Some r" and "range_start r = s"
    and "\<forall>p\<in>set pre. \<forall>r'. heap m p = Some r' \<longrightarrow> range_start r' \<noteq> s"
  shows "find_range s before rng m
     = Some (Inr (if pre = [] then before else NextLink (last pre), Some a))"
  using assms(1,4)
proof (induction pre arbitrary: rng before)
  case Nil
  with assms(2,3) show ?case by (subst find_range.simps) simp
next
  case (Cons p pre)
  then obtain rp where rp: "rng = Some p" "heap m p = Some rp"
      "ranges_path (heap m) (range_next rp) pre (Some a)"
    by (auto split: option.splits)
  with Cons.prems have "range_start rp \<noteq> s" by simp
  moreover have "find_range s (NextLink p) (range_next rp) m
     = Some (Inr (if pre = [] then NextLink p else NextLink (last pre), Some a))"
    using rp(3) Cons.prems(2) by (intro Cons.IH) simp_all
  ultimately show ?case using rp by (subst find_range.simps) simp
qed

lemma find_range_absent:
  assumes "ranges_path (heap m) rng ps None"
    and "\<forall>p\<in>set ps. \<forall>r'. heap m p = Some r' \<longrightarrow> range_start r' \<noteq> s"
  shows "find_range s before rng m
     = Some (Inr (if ps = [] then before else NextLink (last ps), None))"
  using assms
proof (induction ps arbitrary: rng before)
  case Nil
  then show ?case by (subst find_range.simps) simp
next
  case (Cons p ps)
  then obtain rp where rp: "rng = Some p" "heap m p = Some rp"
      "ranges_path (heap m) (range_next rp) ps None"
    by (auto split: option.splits)
  with Cons.prems have "range_start rp \<noteq> s" by simp
  moreover have "find_range s (NextLink p) (range_next rp) m
     = Some (Inr (if ps = [] then NextLink p else NextLink (last ps), None))"
    using rp(3) Cons.prems(2) by (intro Cons.IH) simp_all
  ultimately show ?case using rp by (subst find_range.simps) simp
qed

lemma unlink_range_absent:
  assumes "registered m ps"
    and "\<forall>p\<in>set ps. \<forall>r'. heap m p = Some r' \<longrightarrow> range_start r' \<noteq> s"
  shows "unlink_range s m = Some (Inr (None, m))"
  using find_range_absent [of m "generated_code_ranges m" ps s HeadLink] assms
  by (simp add: unlink_range_def registered_def)

lemma unlink_range_head:
  assumes "registered m (a # suf)" and "heap m a = Some r" and "range_start r = s"
  shows "unlink_range s m = Some (Inr (Some a, m\<lparr>generated_code_ranges := range_next r\<rparr>))"
proof -
  have "find_range s HeadLink (generated_code_ranges m) m = Some (Inr (HeadLink, Some a))"
    using find_range_found [of m "generated_code_ranges m" "[]" a r s HeadLink] assms
    by (simp add: registered_def)
  with assms(2) show ?thesis by (simp add: unlink_range_def)
qed

lemma unlink_range_inner:
  assumes "registered m (pre @ q # a # suf)"
    and "heap m q = Some rq" and "heap m a = Some r" and "range_start r = s"
    and "\<forall>p\<in>set (pre @ [q]). \<forall>r'. heap m p = Some r' \<longrightarrow> range_start r' \<noteq> s"
  shows "unlink_range s m
     = Some (Inr (Some a, m\<lparr>heap := (heap m)(q \<mapsto> rq\<lparr>range_next := range_next r\<rparr>)\<rparr>))"
proof -
  from assms(1) have "ranges_path (heap m) (generated_code_ranges m) ((pre @ [q]) @ a # suf) None"
    by (simp add: registered_def)
  then obtain y where "ranges_path (heap m) (generated_code_ranges m) (pre @ [q]) y"
      and "ranges_path (heap m) y (a # suf) None"
    unfolding ranges_path_append by blast
  then have "ranges_path (heap m) (generated_code_ranges m) (pre @ [q]) (Some a)" by simp
  then have "find_range s HeadLink (generated_code_ranges m) m = Some (Inr (NextLink q, Some a))"
    using find_range_found [of m "generated_code_ranges m" "pre @ [q]" a r s HeadLink] assms(3-5)
    by simp
  with assms(2,3) show ?thesis by (simp add: unlink_range_def)
qed

lemma registered_unlink_head:
  assumes "registered m (a # suf)" and "heap m a = Some r"
  shows "registered (m\<lparr>generated_code_ranges := range_next r\<rparr>) suf"
  using assms by (simp add: registered_def)

lemma registered_unlink_inner:
  assumes "registered m (pre @ q # a # suf)"
    and "heap m q = Some rq" and "heap m a = Some r"
  shows "registered (m\<lparr>heap := (heap m)(q \<mapsto> rq\<lparr>range_next := range_next r\<rparr>)\<rparr>) (pre @ q # suf)"
proof -
  let ?h = "heap m" and ?h' = "(heap m)(q \<mapsto> rq\<lparr>range_next := range_next r\<rparr>)"
  from assms(1) have path: "ranges_path ?h (generated_code_ranges m) (pre @ q # a # suf) None"
    by (simp add: registered_def)
  then have "distinct (pre @ q # a # suf)" by (rule ranges_path_distinct)
  then have q: "q \<notin> set pre" "q \<notin> set suf" by auto
  from path obtain y where pre: "ranges_path ?h (generated_code_ranges m) pre y"
      and rest: "ranges_path ?h y (q # a # suf) None"
    unfolding ranges_path_append by blast
  from rest assms(2,3) have y: "y = Some q" and suf: "ranges_path ?h (range_next r) suf None"
    by simp_all
  from pre q(1) have "ranges_path ?h' (generated_code_ranges m) pre y"
    by (simp add: ranges_path_update_other)
  moreover from suf q(2) have "ranges_path ?h' (range_next r) suf None"
    by (simp add: ranges_path_update_other)
  then have "ranges_path ?h' y (q # suf) None" using y by simp
  ultimately show ?thesis
    unfolding registered_def ranges_path_append by auto
qed

lemma removed_node_path_inner:
  assumes "registered m (pre @ q # a # suf)"
    and "heap m q = Some rq" and "heap m a = Some r"
  shows "ranges_path ((heap m)(q \<mapsto> rq\<lparr>range_next := range_next r\<rparr>)) (Some a) (a # suf) None"
proof -
  let ?h = "heap m"
  from assms(1) have path: "ranges_path ?h (generated_code_ranges m) (pre @ q # a # suf) None"
    by (simp add: registered_def)
  then have "distinct (pre @ q # a # suf)" by (rule ranges_path_distinct)
  then have q: "q \<noteq> a" "q \<notin> set suf" by auto
  from path obtain y where "ranges_path ?h y (q # a # suf) None"
    unfolding ranges_path_append by blast
  with assms(2,3) have "ranges_path ?h (range_next r) suf None" by simp
  with q assms(3) show ?thesis by (simp add: ranges_path_update_other)
qed

lemma unlink_range_found:
  assumes "registered m (pre @ a # suf)"
    and "heap m a = Some r" and "range_start r = s"
    and "\<forall>p\<in>set pre. \<forall>r'. heap m p = Some r' \<longrightarrow> range_start r' \<noteq> s"
  shows "\<exists>m'. unlink_range s m = Some (Inr (Some a, m'))
     \<and> heap m' a = Some r
     \<and> (pre = [] \<longrightarrow> m' = m\<lparr>generated_code_ranges := range_next r\<rparr>)
     \<and> (pre \<noteq> [] \<longrightarrow> (\<exists>rq. heap m (last pre) = Some rq \<and>
            m' = m\<lparr>heap := (heap m)(last pre \<mapsto> rq\<lparr>range_next := range_next r\<rparr>)\<rparr>))
     \<and> registered m' (pre @ suf)
     \<and> ranges_path (heap m') (Some a) (a # suf) None"
proof (cases pre rule: rev_cases)
  case Nil
  with assms show ?thesis
    using unlink_range_head [of m a suf r s] registered_unlink_head [of m a suf r]
    by (simp add: registered_def)
next
  case (snoc pre' q)
  with assms(1) have reg: "registered m (pre' @ q # a # suf)" by simp
  then have path: "ranges_path (heap m) (generated_code_ranges m) (pre' @ q # a # suf) None"
    by (simp add: registered_def)
  then obtain y where "ranges_path (heap m) y (q # a # suf) None"
    unfolding ranges_path_append by blast
  then obtain rq where rq: "heap m q = Some rq" by (auto split: option.splits)
  from path have "distinct (pre' @ q # a # suf)" by (rule ranges_path_distinct)
  then have "q \<noteq> a" by auto
  with snoc assms rq reg show ?thesis
    using unlink_range_inner [of m pre' q a suf rq r s]
      registered_unlink_inner [of m pre' q a suf rq r]
      removed_node_path_inner [of m pre' q a suf rq r]
    by simp
qed

lemma RemoveGeneratedCodeRange_absent:
  assumes "registered m ps"
    and "\<forall>p\<in>set ps. \<forall>r'. heap m p = Some r' \<longrightarrow> range_start r' \<noteq> s"
  shows "RemoveGeneratedCodeRange env s n m = Some (Inl CheckFailed)"
  using unlink_range_absent [OF assms] by (simp add: RemoveGeneratedCodeRange_def)

lemma RemoveGeneratedCodeRange_size_mismatch:
  assumes "registered m (pre @ a # suf)"
    and "heap m a = Some r" and "range_start r = s"
    and "\<forall>p\<in>set pre. \<forall>r'. heap m p = Some r' \<longrightarrow> range_start r' \<noteq> s"
    and "range_size r \<noteq> n"
  shows "RemoveGeneratedCodeRange env s n m = Some (Inl CheckFailed)"
proof -
  from unlink_range_found [OF assms(1-4)] obtain m'
    where "unlink_range s m = Some (Inr (Some a, m'))" and "heap m' a = Some r"
    by blast
  with assms(3,5) show ?thesis by (simp add: RemoveGeneratedCodeRange_def)
qed

lemma RemoveGeneratedCodeRange_found:
  assumes "registered m (pre @ a # suf)"
    and "heap m a = Some r" and "range_start r = s"
    and "\<forall>p\<in>set pre. \<forall>r'. heap m p = Some r' \<longrightarrow> range_start r' \<noteq> s"
    and "range_size r = n" and "Runtime_Current env = Some runtime"
  shows "\<exists>m'. RemoveGeneratedCodeRange env s n m = Some (Inr m')
     \<and> registered m' (pre @ suf) \<and> heap m' a = None
     \<and> generated_code_handlers m' = generated_code_handlers m
     \<and> other_handlers m' = other_handlers m \<and> initialized m' = initialized m"
proof -
  from unlink_range_found [OF assms(1-4)] obtain m1
    where m1: "unlink_range s m = Some (Inr (Some a, m1))" "heap m1 a = Some r"
      "registered m1 (pre @ suf)"
      "pre = [] \<longrightarrow> m1 = m\<lparr>generated_code_ranges := range_next r\<rparr>"
      "pre \<noteq> [] \<longrightarrow> (\<exists>rq. heap m (last pre) = Some rq \<and>
            m1 = m\<lparr>heap := (heap m)(last pre \<mapsto> rq\<lparr>range_next := range_next r\<rparr>)\<rparr>)"
    by blast
  from assms(1) have "distinct (pre @ a # suf)"
    unfolding registered_def by (rule ranges_path_distinct)
  then have "a \<notin> set (pre @ suf)" by auto
  with m1(3) have "registered (m1\<lparr>heap := (heap m1)(a := None)\<rparr>) (pre @ suf)"
    by (simp add: registered_def ranges_path_update_other)
  moreover from m1(4,5) have "generated_code_handlers m1 = generated_code_handlers m
      \<and> other_handlers m1 = other_handlers m \<and> initialized m1 = initialized m"
    by (cases "pre = []") auto
  ultimately show ?thesis
    using m1(1,2) assms(3,5,6) by (simp add: RemoveGeneratedCodeRange_def)
qed

lemma ranges_path_allocated:
  "ranges_path h rng ps q \<Longrightarrow> p \<in> set ps \<Longrightarrow> h p \<noteq> None"
  by (induction ps arbitrary: rng) (auto split: option.splits)

lemma registered_Add:
  assumes "registered m ps" and "heap m p = None"
  shows "registered (AddGeneratedCodeRange p s n m) (p # ps)"
proof -
  from assms have "p \<notin> set ps"
    unfolding registered_def using ranges_path_allocated by fastforce
  with assms(1) show ?thesis
    by (simp add: registered_def AddGeneratedCodeRange_def Let_def ranges_path_update_other)
qed

lemma Remove_after_Add:
  assumes "heap m p = None" and "Runtime_Current env = Some runtime"
  shows "RemoveGeneratedCodeRange env s n (AddGeneratedCodeRange p s n m) = Some (Inr m)"
proof -
  let ?r = "\<lparr>range_next = generated_code_ranges m, range_start = s, range_size = n\<rparr>"
  let ?m1 = "AddGeneratedCodeRange p s n m"
  have m1: "?m1 = m\<lparr>heap := (heap m)(p \<mapsto> ?r), generated_code_ranges := Some p\<rparr>"
    by (simp add: AddGeneratedCodeRange_def Let_def)
  have "find_range s HeadLink (generated_code_ranges ?m1) ?m1 = Some (Inr (HeadLink, Some p))"
    by (subst find_range.simps) (simp add: m1)
  then have "unlink_range s ?m1
      = Some (Inr (Some p, ?m1\<lparr>generated_code_ranges := generated_code_ranges m\<rparr>))"
    by (simp add: unlink_range_def m1)
  moreover have "(?m1\<lparr>generated_code_ranges := generated_code_ranges m\<rparr>)
       \<lparr>heap := (heap (?m1\<lparr>generated_code_ranges := generated_code_ranges m\<rparr>))(p := None)\<rparr> = m"
    using assms(1) by (simp add: m1 fun_upd_idem)
  ultimately show ?thesis
    using assms(2) by (simp add: RemoveGeneratedCodeRange_def m1)
qed

subsection \<open>Dispatch\<close>

lemma invoke_handlers_unclaimed:
  "\<forall>h\<in>set hs. \<not> act h \<Longrightarrow> invoke_handlers act hs = (map ActionCalled hs, False)"
  by (induction hs) auto

lemma invoke_handlers_first_claim:
  "\<forall>h\<in>set pre. \<not> act h \<Longrightarrow> act b \<Longrightarrow>
   invoke_handlers act (pre @ b # rest) = (map ActionCalled (pre @ [b]), True)"
  by (induction pre) auto

lemma invoke_handlers_prefix:
  "\<exists>k. fst (invoke_handlers act hs) = map ActionCalled (take k hs)"
proof (induction hs)
  case Nil
  then show ?case by simp
next
  case (Cons h hs)
  then obtain k where k: "fst (invoke_handlers act hs) = map ActionCalled (take k hs)" ..
  show ?case
  proof (cases "act h")
    case True
    then have "fst (invoke_handlers act (h # hs)) = map ActionCalled (take 1 (h # hs))"
      by simp
    then show ?thesis ..
  next
    case False
    with k have "fst (invoke_handlers act (h # hs)) = map ActionCalled (take (Suc k) (h # hs))"
      by (simp add: case_prod_unfold)
    then show ?thesis ..
  qed
qed

lemma HandleFaultByOtherHandlers_prefix:
  "\<exists>k. fst (HandleFaultByOtherHandlers env sg m) = map ActionCalled (take k (other_handlers m))"
proof -
  obtain k where "fst (invoke_handlers (Action sg) (other_handlers m))
      = map ActionCalled (take k (other_handlers m))"
    using invoke_handlers_prefix by blast
  then have "fst (HandleFaultByOtherHandlers env sg m) = map ActionCalled (take k (other_handlers m))
      \<or> fst (HandleFaultByOtherHandlers env sg m) = map ActionCalled (take 0 (other_handlers m))"
    by (simp add: HandleFaultByOtherHandlers_def case_prod_unfold)
  then show ?thesis by blast
qed

lemma HandleFaultByOtherHandlers_unclaimed:
  assumes "\<forall>h\<in>set (other_handlers m). \<not> Action sg h"
    and "other_handlers m = [] \<or> \<not> kEnableDChecks env \<or>
         (Thread_Current env \<noteq> None \<and>
          (\<exists>runtime. Runtime_Current env = Some runtime \<and> IsStarted runtime))"
  shows "HandleFaultByOtherHandlers env sg m = (map ActionCalled (other_handlers m), Inr False)"
  using assms
  by (auto simp: HandleFaultByOtherHandlers_def invoke_handlers_unclaimed)

lemma IsInGeneratedCode_outside:
  assumes "registered m ps"
    and "\<forall>p\<in>set ps. \<forall>r. heap m p = Some r \<longrightarrow>
           \<not> GetFaultPc sg - range_start r < range_size r"
  shows "IsInGeneratedCode env sg m = Some (Inr (False, m))"
  using assms
  by (auto simp: IsInGeneratedCode_def registered_def walk_ranges_registered Let_def
           split: option.splits)

lemma HandleFault_not_in_generated_code:
  assumes "IsInGeneratedCode env sg m = Some (Inr (False, m))"
  shows "HandleFault env sg m =
     Some (case HandleFaultByOtherHandlers env sg m of
             (evs, Inl e) \<Rightarrow> (evs, Inl e)
           | (evs, Inr True) \<Rightarrow> (evs, Inr True)
           | (evs, Inr False) \<Rightarrow> (evs @ [art_sigsegv_fault], Inr False))"
  using assms
  by (simp add: HandleFault_def split: prod.splits sum.splits bool.splits)

lemma count_list_ActionCalled:
  "count_list (map ActionCalled hs) art_sigsegv_fault = 0"
  by (induction hs) auto

subsection \<open>Lifecycle\<close>

lemma delete_ranges_registered:
  "ranges_path (heap m) rng ps None \<Longrightarrow>
   delete_ranges rng m = Some (Inr (m\<lparr>heap := heap m |` (- set ps)\<rparr>))"
proof (induction ps arbitrary: rng m)
  case Nil
  have "heap m |` UNIV = heap m" by (rule ext) (simp add: restrict_map_def)
  with Nil show ?case by (subst delete_ranges.simps) simp
next
  case (Cons p ps)
  let ?m1 = "m\<lparr>heap := (heap m)(p := None)\<rparr>"
  from Cons.prems obtain r where r: "rng = Some p" "heap m p = Some r"
      "ranges_path (heap m) (range_next r) ps None"
    by (auto split: option.splits)
  from Cons.prems r(1) have "p \<notin> set ps"
    using ranges_path_hd_notin [of "heap m" p ps] by simp
  with r(3) have "ranges_path (heap ?m1) (range_next r) ps None"
    by (simp add: ranges_path_update_other)
  then have "delete_ranges (range_next r) ?m1 = Some (Inr (?m1\<lparr>heap := heap ?m1 |` (- set ps)\<rparr>))"
    by (rule Cons.IH)
  moreover have "((heap m)(p := None)) |` (- set ps) = heap m |` (- set (p # ps))"
    by (rule ext) (simp add: restrict_map_def)
  ultimately have "delete_ranges (range_next r) ?m1
      = Some (Inr (m\<lparr>heap := heap m |` (- set (p # ps))\<rparr>))"
    by simp
  with r(1,2) show ?case by (subst delete_ranges.simps) simp
qed

lemma Shutdown_registered:
  assumes "registered m ps" and "initialized m"
  shows "Shutdown m = Some (Inr
     \<lparr>heap = heap m |` (- set ps),
      generated_code_ranges = None,
      generated_code_handlers = [],
      other_handlers = [],
      initialized = False\<rparr>)"
proof -
  let ?m4 = "m\<lparr>initialized := False, generated_code_handlers := [], other_handlers := [],
               generated_code_ranges := None\<rparr>"
  from assms(1) have "ranges_path (heap ?m4) (generated_code_ranges m) ps None"
    by (simp add: registered_def)
  then have "delete_ranges (generated_code_ranges m) ?m4
      = Some (Inr (?m4\<lparr>heap := heap ?m4 |` (- set ps)\<rparr>))"
    by (rule delete_ranges_registered)
  with assms(2) show ?thesis
    by (simp add: Shutdown_def Release_def STLDeleteElements_def Let_def)
qed

subsection \<open>The registry stays a list\<close>

text \<open>
  The constructor leaves a manager without ranges, which is \<open>registered\<close> with the empty
  list of nodes; every operation that changes the registry and returns leaves it
  \<open>registered\<close> again, and the other operations touch neither the head nor a node.
\<close>

lemma registered_no_ranges:
  "generated_code_ranges m = None \<Longrightarrow> registered m []"
  by (simp add: registered_def)

lemma registered_unique:
  "registered m ps \<Longrightarrow> registered m ps' \<Longrightarrow> ps = ps'"
  unfolding registered_def by (rule ranges_path_unique)

lemma registered_Init:
  "registered m ps \<Longrightarrow> Init membarrier_result m = Inr m' \<Longrightarrow> registered m' ps"
  by (auto simp: Init_def registered_def split: if_splits)

lemma registered_Release:
  "registered m ps \<Longrightarrow> registered (Release m) ps"
  by (simp add: Release_def registered_def)

lemma registered_AddHandler:
  "registered m ps \<Longrightarrow> AddHandler env h generated_code m = Inr m' \<Longrightarrow> registered m' ps"
  by (auto simp: AddHandler_def registered_def split: if_splits)

lemma registered_RemoveHandler:
  "registered m ps \<Longrightarrow> RemoveHandler h m = Inr m' \<Longrightarrow> registered m' ps"
  by (auto simp: RemoveHandler_def registered_def split: if_splits)

lemma registered_Shutdown:
  assumes "registered m ps" and "initialized m"
  shows "\<exists>m'. Shutdown m = Some (Inr m') \<and> registered m' []"
  using Shutdown_registered [OF assms] by (simp add: registered_def)

lemma RemoveGeneratedCodeRange_returns:
  assumes "registered m ps"
  shows "RemoveGeneratedCodeRange env s n m = Some (Inl CheckFailed)
     \<or> (\<exists>m' pre a suf. ps = pre @ a # suf
           \<and> RemoveGeneratedCodeRange env s n m = Some (Inr m') \<and> registered m' (pre @ suf))"
proof (cases "\<exists>p\<in>set ps. \<exists>r. heap m p = Some r \<and> range_start r = s")
  case False
  with assms have "RemoveGeneratedCodeRange env s n m = Some (Inl CheckFailed)"
    by (intro RemoveGeneratedCodeRange_absent [of m ps]) auto
  then show ?thesis ..
next
  case True
  then obtain pre a suf where ps: "ps = pre @ a # suf"
      and a: "\<exists>r. heap m a = Some r \<and> range_start r = s"
      and pre: "\<forall>p\<in>set pre. \<not> (\<exists>r. heap m p = Some r \<and> range_start r = s)"
    using split_list_first_prop [of ps "\<lambda>p. \<exists>r. heap m p = Some r \<and> range_start r = s"]
    by blast
  from a obtain r where r: "heap m a = Some r" "range_start r = s" by blast
  from pre have pre': "\<forall>p\<in>set pre. \<forall>r'. heap m p = Some r' \<longrightarrow> range_start r' \<noteq> s"
    by blast
  from assms ps have reg: "registered m (pre @ a # suf)" by simp
  show ?thesis
  proof (cases "range_size r = n \<and> Runtime_Current env \<noteq> None")
    case True
    then obtain runtime where "Runtime_Current env = Some runtime" by blast
    with True RemoveGeneratedCodeRange_found [OF reg r pre', of n env runtime] ps
    show ?thesis by blast
  next
    case False
    then consider "range_size r \<noteq> n" | "range_size r = n" "Runtime_Current env = None"
      by blast
    then have "RemoveGeneratedCodeRange env s n m = Some (Inl CheckFailed)"
    proof cases
      case 1
      with reg r pre' show ?thesis by (rule RemoveGeneratedCodeRange_size_mismatch)
    next
      case 2
      from unlink_range_found [OF reg r pre'] obtain m1
        where "unlink_range s m = Some (Inr (Some a, m1))" and "heap m1 a = Some r"
        by blast
      with 2 r(2) show ?thesis by (simp add: RemoveGeneratedCodeRange_def)
    qed
    then show ?thesis ..
  qed
qed

section \<open>The claims\<close>

text \<open>
  C1, as amended. On a thread with a current-thread identity, in the Runnable state and
  holding the mutator lock in shared mode, and for a nonzero fault PC,
  \<open>IsInGeneratedCode\<close> returns whether the unsigned comparison
  \<open>fault_pc - start < size\<close> holds for some registered range, whatever the ranges are.
  For a registered range that does not run over the end of the address space
  (\<open>start + size \<le> 2 ^ w\<close>), the comparison holds exactly when the fault PC lies in
  \<open>[start, start + size)\<close>, and it rejects every address below \<open>start\<close>. So when no
  registered range runs over the end, \<open>IsInGeneratedCode\<close> returns whether the fault PC
  lies in \<open>[start, start + size)\<close> of some registered range.
\<close>

theorem IsInGeneratedCode_iff_in_range:
  fixes m :: "'w::len word FaultManager"
  assumes "registered m ps"
    and "Thread_Current env = Some thread" and "GetState thread = kRunnable"
    and "IsSharedHeld thread" and "GetFaultPc sg \<noteq> 0"
  shows "IsInGeneratedCode env sg m =
      Some (Inr ((\<exists>p\<in>set ps. \<exists>r. heap m p = Some r \<and>
                   GetFaultPc sg - range_start r < range_size r), m))
    \<and> (\<forall>p\<in>set ps. \<forall>r. heap m p = Some r \<longrightarrow>
          unat (range_start r) + unat (range_size r) \<le> 2 ^ LENGTH('w) \<longrightarrow>
          (GetFaultPc sg - range_start r < range_size r)
            = (unat (range_start r) \<le> unat (GetFaultPc sg) \<and>
               unat (GetFaultPc sg) < unat (range_start r) + unat (range_size r)))
    \<and> (\<forall>p\<in>set ps. \<forall>r. heap m p = Some r \<longrightarrow>
          unat (range_start r) + unat (range_size r) \<le> 2 ^ LENGTH('w) \<longrightarrow>
          GetFaultPc sg < range_start r \<longrightarrow>
          \<not> GetFaultPc sg - range_start r < range_size r)
    \<and> ((\<forall>p\<in>set ps. \<forall>r. heap m p = Some r \<longrightarrow>
            unat (range_start r) + unat (range_size r) \<le> 2 ^ LENGTH('w)) \<longrightarrow>
          IsInGeneratedCode env sg m =
            Some (Inr ((\<exists>p\<in>set ps. \<exists>r. heap m p = Some r \<and>
                   unat (range_start r) \<le> unat (GetFaultPc sg) \<and>
                   unat (GetFaultPc sg) < unat (range_start r) + unat (range_size r)), m)))"
proof (intro conjI)
  show res: "IsInGeneratedCode env sg m =
      Some (Inr ((\<exists>p\<in>set ps. \<exists>r. heap m p = Some r \<and>
                   GetFaultPc sg - range_start r < range_size r), m))"
    using assms by (rule IsInGeneratedCode_registered)
  show per_range: "\<forall>p\<in>set ps. \<forall>r. heap m p = Some r \<longrightarrow>
          unat (range_start r) + unat (range_size r) \<le> 2 ^ LENGTH('w) \<longrightarrow>
          (GetFaultPc sg - range_start r < range_size r)
            = (unat (range_start r) \<le> unat (GetFaultPc sg) \<and>
               unat (GetFaultPc sg) < unat (range_start r) + unat (range_size r))"
    by (intro ballI allI impI range_test_no_wrap)
  then show "\<forall>p\<in>set ps. \<forall>r. heap m p = Some r \<longrightarrow>
          unat (range_start r) + unat (range_size r) \<le> 2 ^ LENGTH('w) \<longrightarrow>
          GetFaultPc sg < range_start r \<longrightarrow>
          \<not> GetFaultPc sg - range_start r < range_size r"
    by (auto simp: word_less_nat_alt)
  show "(\<forall>p\<in>set ps. \<forall>r. heap m p = Some r \<longrightarrow>
            unat (range_start r) + unat (range_size r) \<le> 2 ^ LENGTH('w)) \<longrightarrow>
          IsInGeneratedCode env sg m =
            Some (Inr ((\<exists>p\<in>set ps. \<exists>r. heap m p = Some r \<and>
                   unat (range_start r) \<le> unat (GetFaultPc sg) \<and>
                   unat (GetFaultPc sg) < unat (range_start r) + unat (range_size r)), m))"
  proof
    assume nowrap: "\<forall>p\<in>set ps. \<forall>r. heap m p = Some r \<longrightarrow>
            unat (range_start r) + unat (range_size r) \<le> 2 ^ LENGTH('w)"
    with per_range have "(\<exists>p\<in>set ps. \<exists>r. heap m p = Some r \<and>
           GetFaultPc sg - range_start r < range_size r)
       = (\<exists>p\<in>set ps. \<exists>r. heap m p = Some r \<and>
           unat (range_start r) \<le> unat (GetFaultPc sg) \<and>
           unat (GetFaultPc sg) < unat (range_start r) + unat (range_size r))"
      by blast
    with res show "IsInGeneratedCode env sg m =
            Some (Inr ((\<exists>p\<in>set ps. \<exists>r. heap m p = Some r \<and>
                   unat (range_start r) \<le> unat (GetFaultPc sg) \<and>
                   unat (GetFaultPc sg) < unat (range_start r) + unat (range_size r)), m))"
      by simp
  qed
qed

theorem IsInGeneratedCode_iff_in_range_witness:
  "registered two_ranges [2, 1]
   \<and> IsInGeneratedCode runnable_env (fault_at 0x1050 []) two_ranges = Some (Inr (True, two_ranges))
   \<and> IsInGeneratedCode runnable_env (fault_at 0x1300 []) two_ranges = Some (Inr (False, two_ranges))
   \<and> registered wrapping_range [1]
   \<and> IsInGeneratedCode runnable_env (fault_at 8 []) wrapping_range
       = Some (Inr (True, wrapping_range))
   \<and> IsInGeneratedCode runnable_env (fault_at 0x10 []) wrapping_range
       = Some (Inr (False, wrapping_range))"
  using IsInGeneratedCode_iff_in_range [of two_ranges "[2, 1]" runnable_env
          "\<lparr>GetState = kRunnable, IsSharedHeld = True\<rparr>" "fault_at 0x1050 []"]
        IsInGeneratedCode_iff_in_range [of two_ranges "[2, 1]" runnable_env
          "\<lparr>GetState = kRunnable, IsSharedHeld = True\<rparr>" "fault_at 0x1300 []"]
        IsInGeneratedCode_iff_in_range [of wrapping_range "[1]" runnable_env
          "\<lparr>GetState = kRunnable, IsSharedHeld = True\<rparr>" "fault_at 8 []"]
        IsInGeneratedCode_iff_in_range [of wrapping_range "[1]" runnable_env
          "\<lparr>GetState = kRunnable, IsSharedHeld = True\<rparr>" "fault_at 0x10 []"]
  by (simp add: registered_def two_ranges_def wrapping_range_def runnable_env_def fault_at_def)

text \<open>
  C1 as it is written fails on a registered range that runs over the end of the address
  space: the fault PC 8 is below \<open>start\<close>, and \<open>IsInGeneratedCode\<close> returns true.
\<close>

theorem wrapping_range_accepts_address_below_start:
  "registered wrapping_range [1]
   \<and> heap wrapping_range 1
       = Some \<lparr>range_next = None, range_start = 0xFFFFFFFFFFFFFFF0, range_size = 0x20\<rparr>
   \<and> GetFaultPc (fault_at (8 :: 64 word) []) = 8
   \<and> (8 :: 64 word) < 0xFFFFFFFFFFFFFFF0
   \<and> IsInGeneratedCode runnable_env (fault_at 8 []) wrapping_range
       = Some (Inr (True, wrapping_range))"
  by (simp add: registered_def wrapping_range_def runnable_env_def fault_at_def
        IsInGeneratedCode_def walk_ranges.simps)

text \<open>
  C5. Whatever the registry holds, \<open>IsInGeneratedCode\<close> returns false when the
  current thread is null, when its state is not Runnable, when it does not hold the
  mutator lock in shared mode, or when the extracted fault PC is zero.
\<close>

theorem IsInGeneratedCode_false_when_guard_fails:
  assumes "Thread_Current env = None \<or>
     (\<exists>thread. Thread_Current env = Some thread \<and>
        (GetState thread \<noteq> kRunnable \<or> \<not> IsSharedHeld thread)) \<or>
     GetFaultPc sg = 0"
  shows "IsInGeneratedCode env sg m = Some (Inr (False, m))"
  using assms by (rule IsInGeneratedCode_guard_fails)

theorem IsInGeneratedCode_false_when_guard_fails_witness:
  "IsInGeneratedCode detached_env (fault_at 0x1050 []) two_ranges
     = Some (Inr (False, two_ranges))
   \<and> IsInGeneratedCode
       (runnable_env\<lparr>Thread_Current := Some \<lparr>GetState = kOtherState 0, IsSharedHeld = True\<rparr>\<rparr>)
       (fault_at 0x1050 []) two_ranges
     = Some (Inr (False, two_ranges))
   \<and> IsInGeneratedCode
       (runnable_env\<lparr>Thread_Current := Some \<lparr>GetState = kRunnable, IsSharedHeld = False\<rparr>\<rparr>)
       (fault_at 0x1050 []) two_ranges
     = Some (Inr (False, two_ranges))
   \<and> IsInGeneratedCode runnable_env (fault_at 0 []) two_ranges
     = Some (Inr (False, two_ranges))"
  using IsInGeneratedCode_false_when_guard_fails
          [of detached_env "fault_at 0x1050 []" two_ranges]
        IsInGeneratedCode_false_when_guard_fails
          [of "runnable_env\<lparr>Thread_Current := Some \<lparr>GetState = kOtherState 0, IsSharedHeld = True\<rparr>\<rparr>"
              "fault_at 0x1050 []" two_ranges]
        IsInGeneratedCode_false_when_guard_fails
          [of "runnable_env\<lparr>Thread_Current := Some \<lparr>GetState = kRunnable, IsSharedHeld = False\<rparr>\<rparr>"
              "fault_at 0x1050 []" two_ranges]
        IsInGeneratedCode_false_when_guard_fails
          [of runnable_env "fault_at (0 :: 64 word) []" two_ranges]
  by (simp add: detached_env_def runnable_env_def fault_at_def)

text \<open>
  C10. Whenever \<open>IsInGeneratedCode\<close> returns, the manager it leaves behind is the one it
  was called on: the head of the list, the \<open>start\<close>, \<open>size\<close> and \<open>next\<close> of every
  node, both handler lists and the initialized flag are as before, so that a second call
  with the same inputs gives the same answer. On a manager whose registry is a list it
  does return.
\<close>

theorem IsInGeneratedCode_read_only:
  "(\<forall>b m'. IsInGeneratedCode env sg m = Some (Inr (b, m')) \<longrightarrow>
        heap m' = heap m \<and> generated_code_ranges m' = generated_code_ranges m
      \<and> generated_code_handlers m' = generated_code_handlers m
      \<and> other_handlers m' = other_handlers m \<and> initialized m' = initialized m
      \<and> m' = m
      \<and> IsInGeneratedCode env sg m' = Some (Inr (b, m')))
   \<and> (registered m ps \<longrightarrow> (\<exists>b. IsInGeneratedCode env sg m = Some (Inr (b, m))))"
  using IsInGeneratedCode_frame [of env sg m] IsInGeneratedCode_returns [of m ps env sg]
  by auto

theorem IsInGeneratedCode_read_only_witness:
  "registered two_ranges [2, 1]
   \<and> IsInGeneratedCode runnable_env (fault_at 0x2010 []) two_ranges
       = Some (Inr (True, two_ranges))"
  using IsInGeneratedCode_read_only [of runnable_env "fault_at 0x2010 []" two_ranges "[2, 1]"]
  by (simp add: registered_def two_ranges_def runnable_env_def fault_at_def
        IsInGeneratedCode_def walk_ranges.simps)

text \<open>
  C3. When \<open>AddGeneratedCodeRange(s, n)\<close> has put its node at a fresh address and a
  \<open>Runtime\<close> exists, \<open>RemoveGeneratedCodeRange(s, n)\<close> right after it returns, and the
  manager it leaves is the one before the add; so \<open>IsInGeneratedCode\<close> answers every
  fault, in every environment, as before the add.
\<close>

theorem add_then_remove_round_trip:
  assumes "heap m new_range = None" and "Runtime_Current env = Some runtime"
  shows "\<exists>m'. RemoveGeneratedCodeRange env s n (AddGeneratedCodeRange new_range s n m)
         = Some (Inr m')
     \<and> m' = m
     \<and> (\<forall>env' sg. IsInGeneratedCode env' sg m' = IsInGeneratedCode env' sg m)"
  using Remove_after_Add [OF assms] by simp

theorem add_then_remove_round_trip_witness:
  "heap two_ranges 3 = None
   \<and> RemoveGeneratedCodeRange runnable_env 0x2000 0x40
       (AddGeneratedCodeRange 3 0x2000 0x40 two_ranges) = Some (Inr two_ranges)"
  using add_then_remove_round_trip [of two_ranges 3 runnable_env
          "\<lparr>IsStarted = True, HasThreadList = True\<rparr>" "0x2000" "0x40"]
  by (simp add: two_ranges_def runnable_env_def)

text \<open>
  C4. When the first node with start \<open>s\<close> in the list is \<open>a\<close>, after the
  nodes \<open>pre\<close> and before the nodes \<open>suf\<close>, the unlinking step of
  \<open>RemoveGeneratedCodeRange\<close> returns \<open>a\<close> and changes one link only: the head when
  \<open>pre\<close> is empty, otherwise the \<open>next\<close> field of the last node of \<open>pre\<close>. The
  node \<open>a\<close> keeps its \<open>next\<close>, \<open>start\<close> and \<open>size\<close>; the list becomes
  \<open>pre @ suf\<close>, and following \<open>next\<close> from \<open>a\<close> still goes through every node of
  \<open>suf\<close>, the remaining nodes that came after \<open>a\<close>.
\<close>

theorem unlink_rewrites_one_link:
  assumes "registered m (pre @ a # suf)"
    and "heap m a = Some r" and "range_start r = s"
    and "\<forall>p\<in>set pre. \<forall>r'. heap m p = Some r' \<longrightarrow> range_start r' \<noteq> s"
  shows "\<exists>m'. unlink_range s m = Some (Inr (Some a, m'))
     \<and> heap m' a = Some r
     \<and> (pre = [] \<longrightarrow> m' = m\<lparr>generated_code_ranges := range_next r\<rparr>)
     \<and> (pre \<noteq> [] \<longrightarrow> (\<exists>rq. heap m (last pre) = Some rq \<and>
            m' = m\<lparr>heap := (heap m)(last pre \<mapsto> rq\<lparr>range_next := range_next r\<rparr>)\<rparr>))
     \<and> registered m' (pre @ suf)
     \<and> ranges_path (heap m') (Some a) (a # suf) None"
  using assms by (rule unlink_range_found)

theorem unlink_rewrites_one_link_witness:
  "registered three_ranges ([3] @ 2 # [1])
   \<and> unlink_range 0x2000 three_ranges = Some (Inr (Some 2, three_ranges_unlinked))
   \<and> heap three_ranges_unlinked 2 = heap three_ranges 2
   \<and> registered three_ranges_unlinked [3, 1]
   \<and> ranges_path (heap three_ranges_unlinked) (Some 2) [2, 1] None"
  using unlink_rewrites_one_link [of three_ranges "[3]" 2 "[1]"
          "\<lparr>range_next = Some 1, range_start = 0x2000, range_size = 0x100\<rparr>" "0x2000"]
  by (auto simp: registered_def three_ranges_def three_ranges_unlinked_def)

text \<open>
  C7. \<open>RemoveHandler\<close> of a handler that is in neither list is fatal;
  \<open>RemoveGeneratedCodeRange\<close> is fatal when no node of the list has the start \<open>s\<close>,
  and when the node with start \<open>s\<close> that the search finds has a size other than the one
  passed.
\<close>

theorem fatal_removals:
  "(h \<notin> set (generated_code_handlers m) \<and> h \<notin> set (other_handlers m)
      \<longrightarrow> RemoveHandler h m = Inl LogFatal)
   \<and> (registered m ps \<and> (\<forall>p\<in>set ps. \<forall>r'. heap m p = Some r' \<longrightarrow> range_start r' \<noteq> s)
      \<longrightarrow> RemoveGeneratedCodeRange env s n m = Some (Inl CheckFailed))
   \<and> (registered m (pre @ a # suf) \<and> heap m a = Some r \<and> range_start r = s
        \<and> (\<forall>p\<in>set pre. \<forall>r'. heap m p = Some r' \<longrightarrow> range_start r' \<noteq> s)
        \<and> range_size r \<noteq> n
      \<longrightarrow> RemoveGeneratedCodeRange env s n m = Some (Inl CheckFailed))"
  using RemoveGeneratedCodeRange_absent [of m ps s env n]
    RemoveGeneratedCodeRange_size_mismatch [of m pre a suf r s n env]
  by (simp add: RemoveHandler_def)

theorem fatal_removals_witness:
  "registered two_ranges [2, 1]
   \<and> RemoveHandler 99 two_ranges = Inl LogFatal
   \<and> RemoveGeneratedCodeRange runnable_env 0x5000 0x100 two_ranges = Some (Inl CheckFailed)
   \<and> RemoveGeneratedCodeRange runnable_env 0x1000 0x80 two_ranges = Some (Inl CheckFailed)"
  using fatal_removals [of 99 two_ranges "[2, 1]" "0x5000" runnable_env "0x100"]
        fatal_removals [of 99 two_ranges "[2, 1]" "0x1000" runnable_env "0x80" "[2]" 1 "[]"
          "\<lparr>range_next = None, range_start = 0x1000, range_size = 0x100\<rparr>"]
  by (simp add: registered_def two_ranges_def)

text \<open>
  C2, as amended. Let the generated-code handlers be \<open>A\<close>, \<open>B\<close> and then any others,
  in this order, and let a fault be classified as in generated code: its thread has a
  current-thread identity, is Runnable and holds the mutator lock in shared mode, its PC
  is nonzero and passes the test of a registered range. If \<open>A\<close> does not claim it and
  \<open>B\<close> does, \<open>HandleFault\<close> returns true after calling the \<open>Action\<close> of \<open>A\<close> and
  then that of \<open>B\<close>, and nothing else: no later generated-code handler, no other
  handler, and not \<open>art_sigsegv_fault\<close>.
\<close>

theorem first_claiming_handler_wins:
  assumes "registered m ps"
    and "Thread_Current env = Some thread" and "GetState thread = kRunnable"
    and "IsSharedHeld thread" and "GetFaultPc sg \<noteq> 0"
    and "\<exists>p\<in>set ps. \<exists>r. heap m p = Some r \<and> GetFaultPc sg - range_start r < range_size r"
    and "generated_code_handlers m = A # B # rest"
    and "\<not> Action sg A" and "Action sg B"
  shows "HandleFault env sg m = Some ([ActionCalled A, ActionCalled B], Inr True)"
proof -
  have "IsInGeneratedCode env sg m = Some (Inr (True, m))"
    using IsInGeneratedCode_registered [OF assms(1-5)] assms(6) by simp
  moreover have "invoke_handlers (Action sg) (generated_code_handlers m)
      = ([ActionCalled A, ActionCalled B], True)"
    using assms(7-9) by simp
  ultimately show ?thesis by (simp add: HandleFault_def)
qed

theorem first_claiming_handler_wins_witness:
  "registered two_ranges [2, 1]
   \<and> generated_code_handlers two_ranges = 10 # 11 # [12]
   \<and> HandleFault runnable_env (fault_at 0x1050 [11, 12]) two_ranges
       = Some ([ActionCalled 10, ActionCalled 11], Inr True)"
  using first_claiming_handler_wins [of two_ranges "[2, 1]" runnable_env
          "\<lparr>GetState = kRunnable, IsSharedHeld = True\<rparr>" "fault_at 0x1050 [11, 12]" 10 11 "[12]"]
  by (simp add: registered_def two_ranges_def runnable_env_def fault_at_def)

text \<open>
  C2 as it is written fails for a fault whose address is inside a registered range but
  whose thread is not Runnable: handler 10 does not claim, handler 11 does, and
  \<open>HandleFault\<close> calls neither; it asks the other handler 20, calls
  \<open>art_sigsegv_fault\<close> and returns false.
\<close>

theorem in_range_fault_on_native_thread_not_dispatched:
  "registered two_ranges [2, 1]
   \<and> heap two_ranges 1 = Some \<lparr>range_next = None, range_start = 0x1000, range_size = 0x100\<rparr>
   \<and> GetFaultPc (fault_at (0x1050 :: 64 word) [11]) - 0x1000 < 0x100
   \<and> generated_code_handlers two_ranges = [10, 11, 12]
   \<and> \<not> Action (fault_at (0x1050 :: 64 word) [11]) 10
   \<and> Action (fault_at (0x1050 :: 64 word) [11]) 11
   \<and> HandleFault native_env (fault_at 0x1050 [11]) two_ranges
       = Some ([ActionCalled 20, art_sigsegv_fault], Inr False)"
  by (simp add: registered_def two_ranges_def native_env_def runnable_env_def fault_at_def
        HandleFault_def IsInGeneratedCode_def HandleFaultByOtherHandlers_def)

text \<open>
  C6. When the fault PC passes the test of no registered range, \<open>HandleFault\<close> does
  what its dispatch to the other handlers does, and nothing with the generated-code
  handlers. If the assertions of \<open>HandleFaultByOtherHandlers\<close> fail (a build with
  \<open>DCHECK\<close>s, other handlers registered, and no current thread or no started runtime),
  it aborts before any call. Otherwise it calls the \<open>Action\<close> of the other handlers in
  their order up to the first that claims, and returns true; when none claims it has
  called them all, calls \<open>art_sigsegv_fault\<close> and returns false. Every handler it
  calls is one of the other handlers, and whatever the generated-code handler list holds,
  the call does the same.
\<close>

theorem out_of_range_fault_skips_generated_code_handlers:
  assumes "registered m ps"
    and "\<forall>p\<in>set ps. \<forall>r. heap m p = Some r \<longrightarrow>
           \<not> GetFaultPc sg - range_start r < range_size r"
  shows "(other_handlers m \<noteq> [] \<and> kEnableDChecks env \<and>
            (Thread_Current env = None \<or> Runtime_Current env = None \<or>
             (\<exists>runtime. Runtime_Current env = Some runtime \<and> \<not> IsStarted runtime)) \<longrightarrow>
          HandleFault env sg m = Some ([], Inl DCheckFailed))
     \<and> ((other_handlers m = [] \<or> \<not> kEnableDChecks env \<or>
           (Thread_Current env \<noteq> None \<and>
            (\<exists>runtime. Runtime_Current env = Some runtime \<and> IsStarted runtime))) \<longrightarrow>
          (other_handlers m = pre @ h # rest \<and> (\<forall>x\<in>set pre. \<not> Action sg x) \<and> Action sg h \<longrightarrow>
             HandleFault env sg m = Some (map ActionCalled (pre @ [h]), Inr True))
        \<and> ((\<forall>x\<in>set (other_handlers m). \<not> Action sg x) \<longrightarrow>
             HandleFault env sg m
               = Some (map ActionCalled (other_handlers m) @ [art_sigsegv_fault], Inr False)))
     \<and> (\<forall>evs res x. HandleFault env sg m = Some (evs, res) \<longrightarrow>
           ActionCalled x \<in> set evs \<longrightarrow> x \<in> set (other_handlers m))
     \<and> (\<forall>gs. HandleFault env sg (m\<lparr>generated_code_handlers := gs\<rparr>) = HandleFault env sg m)"
proof -
  have out: "IsInGeneratedCode env sg m = Some (Inr (False, m))"
    using assms by (rule IsInGeneratedCode_outside)
  note hf = HandleFault_not_in_generated_code [OF out]
  show ?thesis
  proof (intro conjI impI allI)
    assume "other_handlers m \<noteq> [] \<and> kEnableDChecks env \<and>
            (Thread_Current env = None \<or> Runtime_Current env = None \<or>
             (\<exists>runtime. Runtime_Current env = Some runtime \<and> \<not> IsStarted runtime))"
    then have "HandleFaultByOtherHandlers env sg m = ([], Inl DCheckFailed)"
      by (auto simp: HandleFaultByOtherHandlers_def split: option.splits)
    then show "HandleFault env sg m = Some ([], Inl DCheckFailed)"
      by (simp add: hf)
  next
    assume ok: "other_handlers m = [] \<or> \<not> kEnableDChecks env \<or>
           (Thread_Current env \<noteq> None \<and>
            (\<exists>runtime. Runtime_Current env = Some runtime \<and> IsStarted runtime))"
      and c: "other_handlers m = pre @ h # rest \<and> (\<forall>x\<in>set pre. \<not> Action sg x) \<and> Action sg h"
    from c have "invoke_handlers (Action sg) (other_handlers m)
        = (map ActionCalled (pre @ [h]), True)"
      using invoke_handlers_first_claim [of pre "Action sg" h rest] by simp
    with ok c have "HandleFaultByOtherHandlers env sg m = (map ActionCalled (pre @ [h]), Inr True)"
      by (auto simp: HandleFaultByOtherHandlers_def)
    then show "HandleFault env sg m = Some (map ActionCalled (pre @ [h]), Inr True)"
      by (simp add: hf)
  next
    assume ok: "other_handlers m = [] \<or> \<not> kEnableDChecks env \<or>
           (Thread_Current env \<noteq> None \<and>
            (\<exists>runtime. Runtime_Current env = Some runtime \<and> IsStarted runtime))"
      and "\<forall>x\<in>set (other_handlers m). \<not> Action sg x"
    then have "HandleFaultByOtherHandlers env sg m
        = (map ActionCalled (other_handlers m), Inr False)"
      by (intro HandleFaultByOtherHandlers_unclaimed)
    then show "HandleFault env sg m
        = Some (map ActionCalled (other_handlers m) @ [art_sigsegv_fault], Inr False)"
      by (simp add: hf)
  next
    fix evs res x
    assume r: "HandleFault env sg m = Some (evs, res)" and x: "ActionCalled x \<in> set evs"
    obtain evs2 r2 where o: "HandleFaultByOtherHandlers env sg m = (evs2, r2)"
      by (cases "HandleFaultByOtherHandlers env sg m")
    obtain k where "fst (HandleFaultByOtherHandlers env sg m)
        = map ActionCalled (take k (other_handlers m))"
      using HandleFaultByOtherHandlers_prefix by blast
    with o have evs2: "evs2 = map ActionCalled (take k (other_handlers m))" by simp
    from r o have "evs = evs2 \<or> evs = evs2 @ [art_sigsegv_fault]"
      by (auto simp: hf split: sum.splits bool.splits)
    with x show "x \<in> set (other_handlers m)"
      unfolding evs2 by (auto dest: in_set_takeD)
  next
    fix gs
    let ?m' = "m\<lparr>generated_code_handlers := gs\<rparr>"
    from assms have "IsInGeneratedCode env sg ?m' = Some (Inr (False, ?m'))"
      by (intro IsInGeneratedCode_outside [of ?m' ps]) (simp_all add: registered_def)
    then have "HandleFault env sg ?m' =
       Some (case HandleFaultByOtherHandlers env sg ?m' of
             (evs, Inl e) \<Rightarrow> (evs, Inl e)
           | (evs, Inr True) \<Rightarrow> (evs, Inr True)
           | (evs, Inr False) \<Rightarrow> (evs @ [art_sigsegv_fault], Inr False))"
      by (rule HandleFault_not_in_generated_code)
    moreover have "other_handlers ?m' = other_handlers m" by simp
    then have "HandleFaultByOtherHandlers env sg ?m' = HandleFaultByOtherHandlers env sg m"
      by (simp only: HandleFaultByOtherHandlers_def)
    ultimately show "HandleFault env sg ?m' = HandleFault env sg m"
      by (simp add: hf)
  qed
qed

theorem out_of_range_fault_skips_generated_code_handlers_witness:
  "registered two_ranges [2, 1] \<and> registered three_other_handlers [2, 1]
   \<and> HandleFault runnable_env (fault_at 0x1300 [10, 11, 12]) two_ranges
       = Some ([ActionCalled 20, art_sigsegv_fault], Inr False)
   \<and> HandleFault runnable_env (fault_at 0x1300 [10, 21, 22]) three_other_handlers
       = Some ([ActionCalled 20, ActionCalled 21], Inr True)
   \<and> HandleFault detached_env (fault_at 0x1300 [10, 21]) three_other_handlers
       = Some ([], Inl DCheckFailed)"
  using out_of_range_fault_skips_generated_code_handlers
          [of two_ranges "[2, 1]" "fault_at 0x1300 [10, 11, 12]" runnable_env "[]" 20 "[]"]
        out_of_range_fault_skips_generated_code_handlers
          [of three_other_handlers "[2, 1]" "fault_at 0x1300 [10, 21, 22]" runnable_env
              "[20]" 21 "[22]"]
        out_of_range_fault_skips_generated_code_handlers
          [of three_other_handlers "[2, 1]" "fault_at 0x1300 [10, 21]" detached_env
              "[20]" 21 "[22]"]
  by (simp add: registered_def two_ranges_def three_other_handlers_def runnable_env_def
        detached_env_def fault_at_def)

text \<open>
  C9, as amended. Let no handler of either list claim the fault, and let the other
  handlers be none, or the build be one without \<open>DCHECK\<close>s, or the current thread be
  non-null and the runtime be there and started. Then \<open>HandleFault\<close> calls
  \<open>art_sigsegv_fault\<close> exactly once, as the last thing it does, and returns false.
\<close>

theorem unclaimed_fault_reaches_marker:
  assumes "registered m ps"
    and "\<forall>h\<in>set (generated_code_handlers m) \<union> set (other_handlers m). \<not> Action sg h"
    and "other_handlers m = [] \<or> \<not> kEnableDChecks env \<or>
         (Thread_Current env \<noteq> None \<and>
          (\<exists>runtime. Runtime_Current env = Some runtime \<and> IsStarted runtime))"
  shows "\<exists>hs. HandleFault env sg m = Some (map ActionCalled hs @ [art_sigsegv_fault], Inr False)
     \<and> count_list (map ActionCalled hs @ [art_sigsegv_fault]) art_sigsegv_fault = 1"
proof -
  from IsInGeneratedCode_returns [OF assms(1)] obtain b
    where b: "IsInGeneratedCode env sg m = Some (Inr (b, m))" by blast
  have other: "HandleFaultByOtherHandlers env sg m
      = (map ActionCalled (other_handlers m), Inr False)"
    using assms(2,3) by (intro HandleFaultByOtherHandlers_unclaimed) auto
  have gen: "invoke_handlers (Action sg) (generated_code_handlers m)
      = (map ActionCalled (generated_code_handlers m), False)"
    using assms(2) by (intro invoke_handlers_unclaimed) auto
  let ?hs = "(if b then generated_code_handlers m else []) @ other_handlers m"
  have "HandleFault env sg m = Some (map ActionCalled ?hs @ [art_sigsegv_fault], Inr False)"
    using b other gen by (simp add: HandleFault_def)
  moreover have "count_list (map ActionCalled ?hs @ [art_sigsegv_fault]) art_sigsegv_fault = 1"
    by (simp add: count_list_ActionCalled del: map_append)
  ultimately show ?thesis by blast
qed

theorem unclaimed_fault_reaches_marker_witness:
  "registered two_ranges [2, 1]
   \<and> HandleFault runnable_env (fault_at 0x1050 []) two_ranges
       = Some ([ActionCalled 10, ActionCalled 11, ActionCalled 12, ActionCalled 20,
                art_sigsegv_fault], Inr False)"
  using unclaimed_fault_reaches_marker [of two_ranges "[2, 1]" "fault_at 0x1050 []" runnable_env]
  by (simp add: registered_def two_ranges_def runnable_env_def fault_at_def
        HandleFault_def IsInGeneratedCode_def walk_ranges.simps HandleFaultByOtherHandlers_def)

text \<open>
  C9 as it is written fails in a build with \<open>DCHECK\<close>s for a fault on a thread that is
  not attached to the runtime, when an other handler is registered: no handler claims
  the fault, and \<open>HandleFault\<close> neither calls \<open>art_sigsegv_fault\<close> nor returns, the
  \<open>DCHECK(self != nullptr)\<close> of \<open>HandleFaultByOtherHandlers\<close> aborts.
\<close>

theorem unclaimed_fault_on_detached_thread_aborts:
  "kEnableDChecks detached_env
   \<and> Thread_Current detached_env = None
   \<and> other_handlers two_ranges = [20]
   \<and> \<not> Action (fault_at (0x5000 :: 64 word) []) 10
   \<and> \<not> Action (fault_at (0x5000 :: 64 word) []) 11
   \<and> \<not> Action (fault_at (0x5000 :: 64 word) []) 12
   \<and> \<not> Action (fault_at (0x5000 :: 64 word) []) 20
   \<and> HandleFault detached_env (fault_at 0x5000 []) two_ranges = Some ([], Inl DCheckFailed)"
  by (simp add: two_ranges_def detached_env_def runnable_env_def fault_at_def
        HandleFault_def IsInGeneratedCode_def HandleFaultByOtherHandlers_def)

text \<open>
  C8. \<open>Init\<close> on an initialized manager is fatal; on an uninitialized one it returns
  with the flag set. \<open>Release\<close> and \<open>Shutdown\<close> on an uninitialized manager return it
  as it is. \<open>Shutdown\<close> of a manager whose registry is a list returns with the flag
  cleared, and \<open>Init\<close> after it returns with the flag set.
\<close>

theorem lifecycle_flag:
  "(initialized m \<longrightarrow> Init membarrier_result m = Inl CheckFailed)
   \<and> (\<not> initialized m \<longrightarrow>
        Init membarrier_result m = Inr (m\<lparr>initialized := True\<rparr>)
        \<and> initialized (m\<lparr>initialized := True\<rparr>))
   \<and> (\<not> initialized m \<longrightarrow> Release m = m \<and> Shutdown m = Some (Inr m))
   \<and> (registered m ps \<longrightarrow>
        (\<exists>m'. Shutdown m = Some (Inr m') \<and> \<not> initialized m'
           \<and> Init membarrier_result m' = Inr (m'\<lparr>initialized := True\<rparr>)))"
proof (intro conjI impI)
  assume reg: "registered m ps"
  show "\<exists>m'. Shutdown m = Some (Inr m') \<and> \<not> initialized m'
           \<and> Init membarrier_result m' = Inr (m'\<lparr>initialized := True\<rparr>)"
  proof (cases "initialized m")
    case True
    with reg show ?thesis by (simp add: Shutdown_registered Init_def)
  next
    case False
    then show ?thesis by (simp add: Shutdown_def Init_def)
  qed
qed (simp_all add: Init_def Release_def Shutdown_def)

theorem lifecycle_flag_witness:
  "initialized two_ranges \<and> registered two_ranges [2, 1] \<and> \<not> initialized fresh_manager
   \<and> Init 0 two_ranges = Inl CheckFailed
   \<and> Init (-1) fresh_manager = Inr (fresh_manager\<lparr>initialized := True\<rparr>)
   \<and> Release fresh_manager = fresh_manager
   \<and> Shutdown fresh_manager = Some (Inr fresh_manager)
   \<and> Shutdown two_ranges = Some (Inr fresh_manager)
   \<and> Init 0 fresh_manager = Inr (fresh_manager\<lparr>initialized := True\<rparr>)"
proof -
  have "Shutdown two_ranges = Some (Inr fresh_manager)"
    using Shutdown_registered [of two_ranges "[2, 1]"]
    by (auto simp: registered_def two_ranges_def fresh_manager_def restrict_map_def)
  then show ?thesis
    using lifecycle_flag [of two_ranges 0 "[2, 1]"] lifecycle_flag [of fresh_manager "-1" "[]"]
    by (simp add: registered_def two_ranges_def fresh_manager_def)
qed

end
